theory Spec2Isabelle
  imports
    Complex_Main
    "HOL-Library.Char_ord"
    "HOL-Library.List_Lexorder"
    "HOL-Library.Product_Lexorder"
begin

section \<open>Data model of \<open>app.py\<close>\<close>

text \<open>
  \<open>SpotifyHistory\<close> keeps a pandas \<open>DataFrame\<close> and answers four queries about it.
  The embedding follows the class method by method. What pandas does inside the calls the
  class makes (\<open>read_json\<close>, \<open>astype\<close>, \<open>groupby\<close>, \<open>agg\<close>, \<open>sort_values\<close>, \<open>head\<close>,
  \<open>iloc\<close>) is written out as HOL functions with the documented behaviour of those calls.

  Conventions.
  \<^item> A \<open>float64\<close> cell is the rational number it denotes, or \<open>None\<close> for \<open>NaN\<close>; the
    conversion to \<open>float\<close>, the division by \<open>60000.0\<close> and every addition round their exact
    result to the nearest \<open>float64\<close>.
  \<^item> Exceptions are values: a call that may raise returns \<open>exn + 'a\<close>, with \<open>Inl\<close> for the
    exception.
  \<^item> A name cell holds a string or is null (\<open>None\<close>; pandas' \<open>NaN\<close> or \<open>None\<close>).
\<close>

datatype exn = ValueError | KeyError | IndexError

text \<open>
  One field of one decoded JSON object: the key is not in the object, the key is there with
  the value \<open>null\<close>, or the key is there with a value.
\<close>

datatype 'a field = Absent | Null | Val 'a

text \<open>
  The values an \<open>msPlayed\<close> key can carry: a number (a JSON number, or text that spells one,
  which \<open>float\<close> accepts as well), a JSON boolean, or text that spells no number (such as
  \<open>"abc"\<close>).
\<close>

datatype ms_value = MsNum rat | MsBool bool | MsText string

record event_obj =
  trackName :: "string field"
  artistName :: "string field"
  msPlayed :: "ms_value field"

text \<open>
  The uploaded buffer, seen through the two calls the constructor makes on it:
  \<open>as_array\<close> is the outcome of \<open>pd.read_json(file_like)\<close> and \<open>as_lines\<close> the outcome of
  \<open>pd.read_json(file_like, lines=True)\<close> after \<open>seek(0)\<close>; \<open>None\<close> stands for the
  \<open>ValueError\<close> that \<open>read_json\<close> raises on input it cannot decode. Of the decoded objects
  only the three keys the class looks at are kept.
\<close>

record buffer =
  as_array :: "event_obj list option"
  as_lines :: "event_obj list option"

text \<open>One row of \<open>self.df\<close> after the constructor: the two name cells and the \<open>minutes\<close> cell.\<close>

record row =
  r_track :: "string option"
  r_artist :: "string option"
  r_minutes :: "rat option"

record frame =
  columns :: "string list"
  rows :: "row list"

record song_result =
  song :: string
  artist :: string
  mins :: int

record artist_result =
  a_artist :: string
  a_mins :: int

section \<open>\<open>float64\<close> arithmetic\<close>

text \<open>
  A \<open>float64\<close> value is the rational number it denotes. Every operation on floats gives the
  exact result rounded to the nearest number with a significand of 53 bits, ties going to
  the even significand (\<open>fl\<close>). The range of the exponent is not bounded: infinities,
  subnormal numbers and the sign of zero are left out.
\<close>

text \<open>The number of binary digits of a positive integer.\<close>

function bitlen :: "int \<Rightarrow> int" where
  "bitlen n = (if n \<le> 0 then 0 else 1 + bitlen (n div 2))"
  by pat_completeness auto
termination
  by (relation "measure nat") auto

declare bitlen.simps [simp del]

text \<open>For \<open>x > 0\<close>, the \<open>e\<close> with \<open>2 ^ e \<le> x < 2 ^ (e + 1)\<close>.\<close>

definition exponent :: "rat \<Rightarrow> int" where
  "exponent x =
     (let (p, q) = quotient_of x; d = bitlen p - bitlen q
      in if 2 powi d \<le> x then d else d - 1)"

definition round_half_even :: "rat \<Rightarrow> int" where
  "round_half_even y =
     (let f = \<lfloor>y\<rfloor>; d = y - of_int f
      in if d < 1 / 2 then f else if 1 / 2 < d then f + 1 else if even f then f else f + 1)"

definition fl :: "rat \<Rightarrow> rat" where
  "fl x =
     (if x = 0 then 0
      else let u = 2 powi (exponent \<bar>x\<bar> - 52) in of_int (round_half_even (x / u)) * u)"

section \<open>The constructor\<close>

text \<open>Lines 16 to 21: \<open>read_json\<close>, and on \<open>ValueError\<close> the line-delimited reading.\<close>

definition read_frame :: "buffer \<Rightarrow> exn + event_obj list" where
  "read_frame b =
     (case as_array b of
        Some objs \<Rightarrow> Inr objs
      | None \<Rightarrow> (case as_lines b of Some objs \<Rightarrow> Inr objs | None \<Rightarrow> Inl ValueError))"

text \<open>A column exists in the frame that \<open>read_json\<close> builds when some object has the key.\<close>

definition has_column :: "(event_obj \<Rightarrow> 'a field) \<Rightarrow> event_obj list \<Rightarrow> bool" where
  "has_column f objs = list_ex (\<lambda>ob. f ob \<noteq> Absent) objs"

fun name_cell :: "string field \<Rightarrow> string option" where
  "name_cell Absent = None"
| "name_cell Null = None"
| "name_cell (Val s) = Some s"

text \<open>
  \<open>astype(float)\<close> on one cell of the \<open>msPlayed\<close> column: a missing or null cell is \<open>NaN\<close>,
  a number is the nearest \<open>float64\<close>, \<open>True\<close> and \<open>False\<close> are \<open>1.0\<close> and \<open>0.0\<close>, other text raises
  \<open>ValueError\<close>.
\<close>

fun astype_float :: "ms_value field \<Rightarrow> exn + rat option" where
  "astype_float Absent = Inr None"
| "astype_float Null = Inr None"
| "astype_float (Val (MsNum x)) = Inr (Some (fl x))"
| "astype_float (Val (MsBool b)) = Inr (Some (if b then 1 else 0))"
| "astype_float (Val (MsText s)) = Inl ValueError"

text \<open>The conversion of the whole column stops at the first cell that raises.\<close>

fun astype_column :: "ms_value field list \<Rightarrow> exn + rat option list" where
  "astype_column [] = Inr []"
| "astype_column (c # cs) =
     (case astype_float c of
        Inl e \<Rightarrow> Inl e
      | Inr x \<Rightarrow> (case astype_column cs of Inl e \<Rightarrow> Inl e | Inr xs \<Rightarrow> Inr (x # xs)))"

definition to_minutes :: "rat option \<Rightarrow> rat option" where
  "to_minutes c = map_option (\<lambda>x. fl (x / 60000)) c"

definition mk_row :: "event_obj \<Rightarrow> rat option \<Rightarrow> row" where
  "mk_row ob m =
     \<lparr>r_track = name_cell (trackName ob), r_artist = name_cell (artistName ob),
      r_minutes = m\<rparr>"

definition kept_columns :: "event_obj list \<Rightarrow> string list" where
  "kept_columns objs =
     (if has_column trackName objs then [''trackName''] else []) @
     (if has_column artistName objs then [''artistName''] else []) @
     (if has_column msPlayed objs then [''msPlayed''] else [])"

text \<open>Lines 23 to 30.\<close>

definition normalize :: "event_obj list \<Rightarrow> exn + frame" where
  "normalize objs =
     (if ''msPlayed'' \<in> set (kept_columns objs) then
        (case astype_column (map msPlayed objs) of
           Inl e \<Rightarrow> Inl e
         | Inr ms \<Rightarrow>
             Inr \<lparr>columns = kept_columns objs @ [''minutes''],
                  rows = map2 mk_row objs (map to_minutes ms)\<rparr>)
      else
        Inr \<lparr>columns = kept_columns objs @ [''minutes''],
             rows = map (\<lambda>ob. mk_row ob (Some 0)) objs\<rparr>)"

definition init :: "buffer \<Rightarrow> exn + frame" where
  "init b = (case read_frame b of Inl e \<Rightarrow> Inl e | Inr objs \<Rightarrow> normalize objs)"

section \<open>The queries\<close>

text \<open>
  \<open>Series.sum\<close> skips \<open>NaN\<close> cells. The cells are added from first to last, and each
  partial sum is rounded. (On long columns numpy adds in blocks, and \<open>groupby\<close> adds with a
  compensation term; that changes which roundings occur, not the exact sum they follow.)
\<close>

definition nan_to_zero :: "rat option \<Rightarrow> rat" where
  "nan_to_zero c = (case c of None \<Rightarrow> 0 | Some x \<Rightarrow> x)"

definition sum_minutes :: "row list \<Rightarrow> rat" where
  "sum_minutes rs = foldl (\<lambda>s r. fl (s + nan_to_zero (r_minutes r))) 0 rs"

text \<open>Python's \<open>int\<close> on a float cuts the fraction off, toward zero.\<close>

definition py_int :: "rat \<Rightarrow> int" where
  "py_int x = (if 0 \<le> x then \<lfloor>x\<rfloor> else \<lceil>x\<rceil>)"

definition total_minutes :: "frame \<Rightarrow> int" where
  "total_minutes df = py_int (sum_minutes (rows df))"

text \<open>\<open>df.empty\<close>: the frame always has the \<open>minutes\<close> column, so it is empty when it has no row.\<close>

definition empty :: "frame \<Rightarrow> bool" where
  "empty df = (rows df = [])"

text \<open>
  \<open>groupby(keys, as_index=False).agg({"minutes": "sum"})\<close> on the rows: rows with a null
  key are left out; every other row adds its minutes to the running sum of its key; the
  grouped frame has one row per key, in ascending key order (\<open>sort=True\<close>, the default).
  The sum skips \<open>NaN\<close> minutes.
\<close>

fun add_minutes :: "'k::linorder \<Rightarrow> rat \<Rightarrow> ('k \<times> rat) list \<Rightarrow> ('k \<times> rat) list" where
  "add_minutes k m [] = [(k, fl (0 + m))]"
| "add_minutes k m (g # gs) =
     (if k = fst g then (k, fl (snd g + m)) # gs
      else if k < fst g then (k, fl (0 + m)) # g # gs
      else g # add_minutes k m gs)"

definition group_step ::
  "(row \<Rightarrow> 'k option) \<Rightarrow> ('k::linorder \<times> rat) list \<Rightarrow> row \<Rightarrow> ('k \<times> rat) list" where
  "group_step key gs r =
     (case key r of
        None \<Rightarrow> gs
      | Some k \<Rightarrow> add_minutes k (nan_to_zero (r_minutes r)) gs)"

definition groupby_sum :: "(row \<Rightarrow> 'k option) \<Rightarrow> row list \<Rightarrow> ('k::linorder \<times> rat) list" where
  "groupby_sum key rs = foldl (group_step key) [] rs"

definition song_key :: "row \<Rightarrow> (string \<times> string) option" where
  "song_key r =
     (case r_track r of
        None \<Rightarrow> None
      | Some t \<Rightarrow> (case r_artist r of None \<Rightarrow> None | Some a \<Rightarrow> Some (t, a)))"

definition artist_key :: "row \<Rightarrow> string option" where
  "artist_key r = r_artist r"

text \<open>\<open>groupby\<close> raises \<open>KeyError\<close> for a key that is not a column.\<close>

definition group_songs :: "frame \<Rightarrow> exn + ((string \<times> string) \<times> rat) list" where
  "group_songs df =
     (if ''trackName'' \<in> set (columns df) \<and> ''artistName'' \<in> set (columns df)
      then Inr (groupby_sum song_key (rows df)) else Inl KeyError)"

definition group_artists :: "frame \<Rightarrow> exn + (string \<times> rat) list" where
  "group_artists df =
     (if ''artistName'' \<in> set (columns df)
      then Inr (groupby_sum artist_key (rows df)) else Inl KeyError)"

text \<open>
  \<open>sort_values("minutes", ascending=False)\<close>: pandas asks numpy in which order the rows come
  when they are sorted by their sums, the largest first, and lists the rows in that order.
  The sort it asks for is numpy's default (\<open>kind="quicksort"\<close>), which is not stable: rows with
  equal sums can come in any order. What numpy answers is therefore a parameter of the model,
  \<open>order\<close>: for the column \<open>xs\<close> of sums, \<open>order xs\<close> lists the positions of the rows, first
  row first. Nothing but \<open>valid_order\<close> below is known of it.
\<close>

definition sort_values :: "(rat list \<Rightarrow> nat list) \<Rightarrow> ('k \<times> rat) list \<Rightarrow> ('k \<times> rat) list" where
  "sort_values order gs = map (\<lambda>i. gs ! i) (order (map snd gs))"

text \<open>\<open>head(n)\<close>: the first \<open>n\<close> rows, and all rows but the last \<open>-n\<close> when \<open>n\<close> is negative.\<close>

definition head :: "int \<Rightarrow> 'a list \<Rightarrow> 'a list" where
  "head n xs = (if 0 \<le> n then take (nat n) xs else take (length xs - nat (- n)) xs)"

definition song_row :: "(string \<times> string) \<times> rat \<Rightarrow> song_result" where
  "song_row g = \<lparr>song = fst (fst g), artist = snd (fst g), mins = py_int (snd g)\<rparr>"

definition artist_row :: "string \<times> rat \<Rightarrow> artist_result" where
  "artist_row g = \<lparr>a_artist = fst g, a_mins = py_int (snd g)\<rparr>"

text \<open>\<open>iloc[0]\<close> raises \<open>IndexError\<close> on a frame without rows.\<close>

definition iloc0 :: "'a list \<Rightarrow> exn + 'a" where
  "iloc0 xs = (case xs of [] \<Rightarrow> Inl IndexError | x # _ \<Rightarrow> Inr x)"

definition top_song :: "(rat list \<Rightarrow> nat list) \<Rightarrow> frame \<Rightarrow> exn + song_result option" where
  "top_song order df =
     (if empty df then Inr None
      else (case group_songs df of
              Inl e \<Rightarrow> Inl e
            | Inr grouped \<Rightarrow>
                (case iloc0 (sort_values order grouped) of
                   Inl e \<Rightarrow> Inl e
                 | Inr top_row \<Rightarrow> Inr (Some (song_row top_row)))))"

definition top_artist :: "(rat list \<Rightarrow> nat list) \<Rightarrow> frame \<Rightarrow> exn + artist_result option" where
  "top_artist order df =
     (if empty df then Inr None
      else (case group_artists df of
              Inl e \<Rightarrow> Inl e
            | Inr g \<Rightarrow>
                (case iloc0 (sort_values order g) of
                   Inl e \<Rightarrow> Inl e
                 | Inr top_row \<Rightarrow> Inr (Some (artist_row top_row)))))"

definition top_3_songs :: "(rat list \<Rightarrow> nat list) \<Rightarrow> frame \<Rightarrow> int \<Rightarrow> exn + song_result list" where
  "top_3_songs order df n =
     (if empty df then Inr []
      else (case group_songs df of
              Inl e \<Rightarrow> Inl e
            | Inr grouped \<Rightarrow> Inr (map song_row (head n (sort_values order grouped)))))"


section \<open>Notions used in the statements\<close>

text \<open>
  What is known of the order that numpy answers for a column: every position of the column
  is listed once, and along the list the values do not increase.
\<close>

definition valid_order :: "(rat list \<Rightarrow> nat list) \<Rightarrow> bool" where
  "valid_order order =
     (\<forall>xs. distinct (order xs) \<and> set (order xs) = {..<length xs} \<and>
           sorted_wrt (\<lambda>i j. xs ! j \<le> xs ! i) (order xs))"

text \<open>One such order, in which equal values keep their places; it serves to run the queries.\<close>

definition stable_order :: "rat list \<Rightarrow> nat list" where
  "stable_order xs = sort_key (\<lambda>i. - xs ! i) [0..<length xs]"




fun valid_ms :: "ms_value field \<Rightarrow> bool" where
  "valid_ms Absent = True"
| "valid_ms Null = True"
| "valid_ms (Val (MsNum x)) = (0 \<le> x)"
| "valid_ms (Val c) = False"

fun whole_ms :: "ms_value field \<Rightarrow> bool" where
  "whole_ms Absent = True"
| "whole_ms Null = True"
| "whole_ms (Val (MsNum x)) = (0 \<le> x \<and> of_int \<lfloor>x / 60000\<rfloor> * 60000 = x)"
| "whole_ms (Val c) = False"

text \<open>A cell of the \<open>msPlayed\<close> column that \<open>astype(float)\<close> rejects.\<close>

fun is_text :: "ms_value field \<Rightarrow> bool" where
  "is_text (Val (MsText s)) = True"
| "is_text c = False"

section \<open>Sample exports\<close>

text \<open>
  An export entry with all three keys, and a buffer that holds one JSON array spread over
  several lines, as the exports are written: the first reading decodes it, the line by line
  reading would not.
\<close>

definition play :: "string \<Rightarrow> string \<Rightarrow> rat \<Rightarrow> event_obj" where
  "play t a ms = \<lparr>trackName = Val t, artistName = Val a, msPlayed = Val (MsNum ms)\<rparr>"

definition array_buffer :: "event_obj list \<Rightarrow> buffer" where
  "array_buffer objs = \<lparr>as_array = Some objs, as_lines = None\<rparr>"

text \<open>The three plays of the worked example, and the frame the constructor builds from them.\<close>

definition scenario :: "event_obj list" where
  "scenario = [play ''A'' ''X'' 90000, play ''B'' ''X'' 30000, play ''A'' ''X'' 30000]"

definition scenario_frame :: frame where
  "scenario_frame =
     \<lparr>columns = [''trackName'', ''artistName'', ''msPlayed'', ''minutes''],
      rows = [\<lparr>r_track = Some ''A'', r_artist = Some ''X'', r_minutes = Some (3 / 2)\<rparr>,
              \<lparr>r_track = Some ''B'', r_artist = Some ''X'', r_minutes = Some (1 / 2)\<rparr>,
              \<lparr>r_track = Some ''A'', r_artist = Some ''X'', r_minutes = Some (1 / 2)\<rparr>]\<rparr>"

text \<open>One entry without name keys, and one entry whose names are \<open>null\<close>.\<close>

definition nameless :: "event_obj list" where
  "nameless = [\<lparr>trackName = Absent, artistName = Absent, msPlayed = Val (MsNum 60000)\<rparr>]"

definition nameless_frame :: frame where
  "nameless_frame =
     \<lparr>columns = [''msPlayed'', ''minutes''],
      rows = [\<lparr>r_track = None, r_artist = None, r_minutes = Some 1\<rparr>]\<rparr>"

definition null_named :: "event_obj list" where
  "null_named = [\<lparr>trackName = Null, artistName = Null, msPlayed = Val (MsNum 60000)\<rparr>]"

definition null_named_frame :: frame where
  "null_named_frame =
     \<lparr>columns = [''trackName'', ''artistName'', ''msPlayed'', ''minutes''],
      rows = [\<lparr>r_track = None, r_artist = None, r_minutes = Some 1\<rparr>]\<rparr>"

definition null_titled :: "event_obj list" where
  "null_titled = [\<lparr>trackName = Null, artistName = Val ''X'', msPlayed = Val (MsNum 60000)\<rparr>]"

definition null_titled_frame :: frame where
  "null_titled_frame =
     \<lparr>columns = [''trackName'', ''artistName'', ''msPlayed'', ''minutes''],
      rows = [\<lparr>r_track = None, r_artist = Some ''X'', r_minutes = Some 1\<rparr>]\<rparr>"





text \<open>Entries whose \<open>msPlayed\<close> is \<open>true\<close>, is missing, or is the text \<open>"abc"\<close>.\<close>

definition flagged :: "event_obj list" where
  "flagged =
     [\<lparr>trackName = Val ''A'', artistName = Val ''X'', msPlayed = Val (MsBool True)\<rparr>,
      \<lparr>trackName = Val ''B'', artistName = Val ''X'', msPlayed = Absent\<rparr>]"

definition flagged_frame :: frame where
  "flagged_frame =
     \<lparr>columns = [''trackName'', ''artistName'', ''msPlayed'', ''minutes''],
      rows = [\<lparr>r_track = Some ''A'', r_artist = Some ''X'', r_minutes = Some (fl (1 / 60000))\<rparr>,
              \<lparr>r_track = Some ''B'', r_artist = Some ''X'', r_minutes = None\<rparr>]\<rparr>"

definition garbled :: "event_obj list" where
  "garbled =
     [play ''A'' ''X'' 60000,
      \<lparr>trackName = Val ''B'', artistName = Val ''X'', msPlayed = Val (MsText ''abc'')\<rparr>]"



text \<open>
  Two songs of two artists with one minute each, \<open>B\<close> by \<open>Y\<close> played first, and the same two
  plays with \<open>A\<close> by \<open>X\<close> played first; two songs with two and one minute.
\<close>

definition tied :: "event_obj list" where
  "tied = [play ''B'' ''Y'' 60000, play ''A'' ''X'' 60000]"

definition tied_frame :: frame where
  "tied_frame =
     \<lparr>columns = [''trackName'', ''artistName'', ''msPlayed'', ''minutes''],
      rows = [\<lparr>r_track = Some ''B'', r_artist = Some ''Y'', r_minutes = Some 1\<rparr>,
              \<lparr>r_track = Some ''A'', r_artist = Some ''X'', r_minutes = Some 1\<rparr>]\<rparr>"

definition swapped :: "event_obj list" where
  "swapped = [play ''A'' ''X'' 60000, play ''B'' ''Y'' 60000]"

definition swapped_frame :: frame where
  "swapped_frame =
     \<lparr>columns = [''trackName'', ''artistName'', ''msPlayed'', ''minutes''],
      rows = [\<lparr>r_track = Some ''A'', r_artist = Some ''X'', r_minutes = Some 1\<rparr>,
              \<lparr>r_track = Some ''B'', r_artist = Some ''Y'', r_minutes = Some 1\<rparr>]\<rparr>"

definition ranked :: "event_obj list" where
  "ranked = [play ''A'' ''X'' 120000, play ''B'' ''X'' 60000]"

definition ranked_frame :: frame where
  "ranked_frame =
     \<lparr>columns = [''trackName'', ''artistName'', ''msPlayed'', ''minutes''],
      rows = [\<lparr>r_track = Some ''A'', r_artist = Some ''X'', r_minutes = Some 2\<rparr>,
              \<lparr>r_track = Some ''B'', r_artist = Some ''X'', r_minutes = Some 1\<rparr>]\<rparr>"

section \<open>Rounding\<close>

lemma bitlen_nonneg: "0 \<le> bitlen n"
  by (induction n rule: bitlen.induct) (subst bitlen.simps, simp)

lemma bitlen_lower: "0 < n \<Longrightarrow> (2::int) ^ nat (bitlen n - 1) \<le> n"
proof (induction n rule: bitlen.induct)
  case (1 n)
  show ?case
  proof (cases "n = 1")
    case True
    then show ?thesis by (subst bitlen.simps, subst bitlen.simps) simp
  next
    case False
    with "1.prems" have h: "0 < n div 2" by simp
    then have ih: "2 ^ nat (bitlen (n div 2) - 1) \<le> n div 2"
      using "1.IH" "1.prems" by simp
    have pos: "1 \<le> bitlen (n div 2)"
      using h bitlen_nonneg [of "n div 2 div 2"] by (subst bitlen.simps) simp
    have "bitlen n = 1 + bitlen (n div 2)"
      using "1.prems" by (subst bitlen.simps) simp
    then have "(2::int) ^ nat (bitlen n - 1) = 2 * 2 ^ nat (bitlen (n div 2) - 1)"
      using pos by (simp add: nat_diff_distrib flip: power_Suc) 
    also have "\<dots> \<le> 2 * (n div 2)" using ih by simp
    also have "\<dots> \<le> n" by simp
    finally show ?thesis .
  qed
qed

lemma bitlen_upper: "0 < n \<Longrightarrow> n < (2::int) ^ nat (bitlen n)"
proof (induction n rule: bitlen.induct)
  case (1 n)
  have eq: "bitlen n = 1 + bitlen (n div 2)"
    using "1.prems" by (subst bitlen.simps) simp
  show ?case
  proof (cases "n = 1")
    case True
    then show ?thesis by (subst bitlen.simps, subst bitlen.simps) simp
  next
    case False
    with "1.prems" have h: "0 < n div 2" by simp
    then have ih: "n div 2 < 2 ^ nat (bitlen (n div 2))"
      using "1.IH" "1.prems" by simp
    have "(2::int) ^ nat (bitlen n) = 2 * 2 ^ nat (bitlen (n div 2))"
      using bitlen_nonneg [of "n div 2"] by (simp add: eq nat_add_distrib)
    moreover have "n < 2 * (n div 2 + 1)" by simp
    ultimately show ?thesis using ih by linarith
  qed
qed

lemma bitlen_pos: "0 < n \<Longrightarrow> 1 \<le> bitlen n"
  using bitlen_nonneg [of "n div 2"] by (subst bitlen.simps) simp

lemma quotient_of_pos:
  assumes "0 < x" and "quotient_of x = (p, q)"
  shows "0 < p" and "0 < q" and "x = of_int p / of_int q"
proof -
  show q: "0 < q" using assms(2) by (rule quotient_of_denom_pos)
  show x: "x = of_int p / of_int q" using assms(2) by (rule quotient_of_div)
  from assms(1) x q show "0 < p" by (simp add: zero_less_divide_iff)
qed


lemma exponent_gt: "0 < x \<Longrightarrow> x < 2 powi (exponent x + 1)"
proof -
  assume x: "0 < x"
  obtain p q where pq: "quotient_of x = (p, q)" by (cases "quotient_of x")
  note f = quotient_of_pos [OF x pq]
  let ?d = "bitlen p - bitlen q"
  show ?thesis
  proof (cases "(2::rat) powi ?d \<le> x")
    case False
    then show ?thesis by (simp add: exponent_def pq)
  next
    case True
    have "x = of_int p / of_int q" by (rule f(3))
    also have "\<dots> < (2::rat) ^ nat (bitlen p) / 2 ^ nat (bitlen q - 1)"
    proof (rule frac_less)
      have "(of_int p :: rat) < of_int ((2::int) ^ nat (bitlen p))"
        using bitlen_upper [OF f(1)] by (simp only: of_int_less_iff)
      then show "(of_int p :: rat) < 2 ^ nat (bitlen p)" by simp
      have "of_int ((2::int) ^ nat (bitlen q - 1)) \<le> (of_int q :: rat)"
        using bitlen_lower [OF f(2)] by (simp only: of_int_le_iff)
      then show "(2::rat) ^ nat (bitlen q - 1) \<le> of_int q" by simp
      show "(0::rat) \<le> of_int p" using f(1) by simp
    qed simp
    also have "(2::rat) ^ nat (bitlen p) / 2 ^ nat (bitlen q - 1) =
        2 powi (bitlen p) / 2 powi (bitlen q - 1)"
      using bitlen_pos [OF f(2)] bitlen_nonneg [of p] by (simp add: power_int_def)
    also have "\<dots> = 2 powi (?d + 1)"
      by (simp add: power_int_diff power_int_add)
    finally have "x < 2 powi (?d + 1)" .
    moreover have "exponent x = ?d" using True by (simp add: exponent_def pq)
    ultimately show ?thesis by simp
  qed
qed












section \<open>The constructor\<close>

lemma init_array: "init \<lparr>as_array = Some objs, as_lines = l\<rparr> = normalize objs"
  by (simp add: init_def read_frame_def)

lemma init_read: "read_frame b = Inr objs \<Longrightarrow> init b = normalize objs"
  by (simp add: init_def)

lemma init_Inr_read: "init b = Inr df \<Longrightarrow> \<exists>objs. read_frame b = Inr objs \<and> normalize objs = Inr df"
  by (cases "read_frame b") (simp_all add: init_def)

lemma name_cell_Some: "name_cell c = Some s \<longleftrightarrow> c = Val s"
  by (cases c) auto

lemma astype_float_Inl: "astype_float c = Inl e \<longleftrightarrow> e = ValueError \<and> is_text c"
  by (cases "(c)" rule: astype_float.cases) auto

lemma astype_column_Inl:
  "astype_column cs = Inl e \<longleftrightarrow> e = ValueError \<and> list_ex is_text cs"
proof (induction cs)
  case Nil
  then show ?case by simp
next
  case (Cons c cs)
  show ?case
  proof (cases "astype_float c")
    case (Inl e')
    then show ?thesis using astype_float_Inl [of c e'] by auto
  next
    case (Inr x)
    then have "\<not> is_text c" using astype_float_Inl [of c ValueError] by auto
    with Inr Cons show ?thesis by (auto split: sum.splits)
  qed
qed

lemma astype_column_Inr:
  "astype_column cs = Inr xs \<Longrightarrow>
   length xs = length cs \<and> (\<forall>i<length cs. astype_float (cs ! i) = Inr (xs ! i))"
proof (induction cs arbitrary: xs)
  case Nil
  then show ?case by simp
next
  case (Cons c cs)
  from Cons.prems obtain x xs' where
    c: "astype_float c = Inr x" and cs: "astype_column cs = Inr xs'" and xs: "xs = x # xs'"
    by (auto split: sum.splits)
  from Cons.IH [OF cs] c xs show ?case
    by (auto simp: nth_Cons split: nat.splits)
qed

lemma has_column_kept:
  "''trackName'' \<in> set (kept_columns objs) \<longleftrightarrow> has_column trackName objs"
  "''artistName'' \<in> set (kept_columns objs) \<longleftrightarrow> has_column artistName objs"
  "''msPlayed'' \<in> set (kept_columns objs) \<longleftrightarrow> has_column msPlayed objs"
  by (simp_all add: kept_columns_def)

lemma normalize_Inl:
  "normalize objs = Inl e \<longleftrightarrow> e = ValueError \<and> list_ex (\<lambda>ob. is_text (msPlayed ob)) objs"
proof (cases "has_column msPlayed objs")
  case True
  have "list_ex is_text (map msPlayed objs) = list_ex (\<lambda>ob. is_text (msPlayed ob)) objs"
    by (simp add: list_ex_iff)
  with True astype_column_Inl [of "map msPlayed objs" e] show ?thesis
    by (auto simp: normalize_def has_column_kept split: sum.splits)
next
  case False
  then have "\<forall>ob\<in>set objs. msPlayed ob = Absent"
    by (simp add: has_column_def list_ex_iff)
  then have "\<not> list_ex (\<lambda>ob. is_text (msPlayed ob)) objs"
    by (auto simp: list_ex_iff)
  with False show ?thesis
    by (simp add: normalize_def has_column_kept)
qed

lemma normalize_Inr:
  assumes "normalize objs = Inr df"
  shows "columns df = kept_columns objs @ [''minutes'']"
    and "length (rows df) = length objs"
    and "i < length objs \<Longrightarrow> r_track (rows df ! i) = name_cell (trackName (objs ! i))"
    and "i < length objs \<Longrightarrow> r_artist (rows df ! i) = name_cell (artistName (objs ! i))"
    and "i < length objs \<Longrightarrow>
         r_minutes (rows df ! i) =
           (if has_column msPlayed objs
            then (case astype_float (msPlayed (objs ! i)) of
                    Inr c \<Rightarrow> to_minutes c | Inl e \<Rightarrow> None)
            else Some 0)"
proof -
  show "columns df = kept_columns objs @ [''minutes'']"
    using assms by (auto simp: normalize_def split: if_splits sum.splits)
  show len: "length (rows df) = length objs"
    using assms astype_column_Inr [of "map msPlayed objs"]
    by (auto simp: normalize_def split: if_splits sum.splits)
  {
    assume i: "i < length objs"
    have "\<exists>m. rows df ! i = mk_row (objs ! i) m \<and>
       m = (if has_column msPlayed objs
            then (case astype_float (msPlayed (objs ! i)) of
                    Inr c \<Rightarrow> to_minutes c | Inl e \<Rightarrow> None)
            else Some 0)"
    proof (cases "has_column msPlayed objs")
      case True
      with assms obtain ms where ms: "astype_column (map msPlayed objs) = Inr ms"
        and rs: "rows df = map2 mk_row objs (map to_minutes ms)"
        by (auto simp: normalize_def has_column_kept split: sum.splits)
      from astype_column_Inr [OF ms] i
      have "length ms = length objs" "astype_float (msPlayed (objs ! i)) = Inr (ms ! i)"
        by auto
      with True rs i show ?thesis by simp
    next
      case False
      with assms i show ?thesis
        by (auto simp: normalize_def has_column_kept)
    qed
    then show "r_track (rows df ! i) = name_cell (trackName (objs ! i))"
      and "r_artist (rows df ! i) = name_cell (artistName (objs ! i))"
      and "r_minutes (rows df ! i) =
           (if has_column msPlayed objs
            then (case astype_float (msPlayed (objs ! i)) of
                    Inr c \<Rightarrow> to_minutes c | Inl e \<Rightarrow> None)
            else Some 0)"
      by (auto simp: mk_row_def)
  }
qed

lemma init_name_columns:
  assumes "init b = Inr df" and "rw \<in> set (rows df)" and "song_key rw \<noteq> None"
  shows "''trackName'' \<in> set (columns df) \<and> ''artistName'' \<in> set (columns df)"
proof -
  from init_Inr_read [OF assms(1)] obtain objs where df: "normalize objs = Inr df" by blast
  from assms(2) obtain i where i: "i < length (rows df)" "rw = rows df ! i"
    by (auto simp: in_set_conv_nth)
  then have io: "i < length objs" using normalize_Inr(2) [OF df] by simp
  from assms(3) obtain t a where "r_track rw = Some t" "r_artist rw = Some a"
    by (auto simp: song_key_def split: option.splits)
  with i normalize_Inr(3) [OF df io] normalize_Inr(4) [OF df io]
  have "trackName (objs ! i) = Val t" "artistName (objs ! i) = Val a"
    by (simp_all add: name_cell_Some)
  moreover from io have "objs ! i \<in> set objs" by simp
  ultimately have "has_column trackName objs" "has_column artistName objs"
    unfolding has_column_def list_ex_iff by force+
  then show ?thesis
    by (simp add: normalize_Inr(1) [OF df] has_column_kept)
qed






lemma whole_valid: "whole_ms c \<Longrightarrow> valid_ms c"
  by (cases c rule: whole_ms.cases) auto



section \<open>Grouping\<close>

lemma add_minutes_keys: "set (map fst (add_minutes k m gs)) = insert k (set (map fst gs))"
  by (induction gs) auto

lemma add_minutes_sorted:
  "sorted_wrt (<) (map fst gs) \<Longrightarrow> sorted_wrt (<) (map fst (add_minutes k m gs))"
proof (induction gs)
  case Nil
  then show ?case by simp
next
  case (Cons g gs)
  have "\<forall>x\<in>set (map fst (add_minutes k m gs)). fst g < x" if "fst g < k"
    using Cons.prems that unfolding add_minutes_keys by auto
  with Cons show ?case by (auto simp: not_less)
qed

lemma add_minutes_map_of:
  "sorted_wrt (<) (map fst gs) \<Longrightarrow>
   map_of (add_minutes k m gs) =
     (map_of gs)(k \<mapsto> (case map_of gs k of None \<Rightarrow> fl (0 + m) | Some s \<Rightarrow> fl (s + m)))"
proof (induction gs)
  case Nil
  then show ?case by simp
next
  case (Cons g gs)
  show ?case
  proof (cases "k = fst g")
    case True
    then show ?thesis by (cases g) (auto simp: fun_eq_iff)
  next
    case False
    show ?thesis
    proof (cases "k < fst g")
      case True
      then have "k \<notin> fst ` set (g # gs)" using Cons.prems by auto
      then have "map_of (g # gs) k = None" by (simp add: map_of_eq_None_iff)
      with True False show ?thesis by (cases g) (auto simp: fun_eq_iff)
    next
      case nl: False
      with False Cons show ?thesis by (cases g) (auto simp: fun_eq_iff)
    qed
  qed
qed

lemma groupby_sum_Nil: "groupby_sum key [] = []"
  by (simp add: groupby_sum_def)

lemma groupby_sum_snoc: "groupby_sum key (rs @ [r]) = group_step key (groupby_sum key rs) r"
  by (simp add: groupby_sum_def)

lemma sum_minutes_snoc:
  "sum_minutes (rs @ [r]) = fl (sum_minutes rs + nan_to_zero (r_minutes r))"
  by (simp add: sum_minutes_def)

lemma groupby_sum_invariant:
  "sorted_wrt (<) (map fst (groupby_sum key rs)) \<and>
   map_of (groupby_sum key rs) =
     (\<lambda>k. if list_ex (\<lambda>r. key r = Some k) rs
          then Some (sum_minutes (filter (\<lambda>r. key r = Some k) rs)) else None)"
proof (induction rs rule: rev_induct)
  case Nil
  then show ?case by (simp add: groupby_sum_def)
next
  case (snoc r rs)
  show ?case
  proof (cases "key r")
    case None
    with snoc show ?thesis
      by (simp add: groupby_sum_snoc group_step_def fun_eq_iff list_ex_iff)
  next
    case (Some k)
    from snoc have srt: "sorted_wrt (<) (map fst (groupby_sum key rs))" by simp
    have "map_of (add_minutes k (nan_to_zero (r_minutes r)) (groupby_sum key rs)) k' =
       (if list_ex (\<lambda>r. key r = Some k') (rs @ [r])
        then Some (sum_minutes (filter (\<lambda>r. key r = Some k') (rs @ [r]))) else None)" for k'
      using snoc Some
      by (simp add: add_minutes_map_of [OF srt] sum_minutes_snoc list_ex_iff)
        (auto simp: sum_minutes_def)
    with Some srt show ?thesis
      by (simp add: groupby_sum_snoc group_step_def add_minutes_sorted fun_eq_iff)
  qed
qed

lemma groupby_sum_sorted: "sorted_wrt (<) (map fst (groupby_sum key rs))"
  using groupby_sum_invariant by blast

lemma groupby_sum_distinct: "distinct (map fst (groupby_sum key rs))"
  using groupby_sum_sorted [of key rs] by (simp add: strict_sorted_iff)

lemma groupby_sum_mem:
  "(k, s) \<in> set (groupby_sum key rs) \<longleftrightarrow>
   list_ex (\<lambda>r. key r = Some k) rs \<and> s = sum_minutes (filter (\<lambda>r. key r = Some k) rs)"
proof -
  have "(k, s) \<in> set (groupby_sum key rs) \<longleftrightarrow> map_of (groupby_sum key rs) k = Some s"
    using groupby_sum_distinct [of key rs] by (auto intro: map_of_is_SomeI dest: map_of_SomeD)
  then show ?thesis
    using groupby_sum_invariant [of key rs] by auto
qed

lemma groupby_sum_keys:
  "set (map fst (groupby_sum key rs)) = {k. \<exists>r\<in>set rs. key r = Some k}"
proof -
  have "k \<in> set (map fst (groupby_sum key rs)) \<longleftrightarrow> (\<exists>r\<in>set rs. key r = Some k)" for k
  proof -
    have "k \<in> set (map fst (groupby_sum key rs)) \<longleftrightarrow> (\<exists>s. (k, s) \<in> set (groupby_sum key rs))"
      by force
    then show ?thesis by (simp add: groupby_sum_mem list_ex_iff)
  qed
  then show ?thesis by blast
qed



section \<open>Sums of minutes\<close>




section \<open>Sorting and cutting\<close>

lemma valid_orderD:
  assumes "valid_order order"
  shows "distinct (order xs)" and "set (order xs) = {..<length xs}"
    and "sorted_wrt (\<lambda>i j. xs ! j \<le> xs ! i) (order xs)"
  using assms by (simp_all add: valid_order_def)

lemma valid_order_length: "valid_order order \<Longrightarrow> length (order xs) = length xs"
proof -
  assume v: "valid_order order"
  have "length (order xs) = card (set (order xs))"
    using valid_orderD(1) [OF v, of xs] by (simp add: distinct_card)
  then show ?thesis by (simp add: valid_orderD(2) [OF v])
qed

lemma valid_stable_order: "valid_order stable_order"
proof -
  have "sorted_wrt (\<lambda>i j. xs ! j \<le> xs ! i) (stable_order xs)" for xs :: "rat list"
  proof -
    have "sorted (map (\<lambda>i. - xs ! i) (stable_order xs))"
      by (simp add: stable_order_def)
    then show ?thesis by (simp add: sorted_map)
  qed
  moreover have "set (stable_order xs) = {..<length xs}" for xs :: "rat list"
    by (auto simp: stable_order_def)
  moreover have "distinct (stable_order xs)" for xs :: "rat list"
    by (simp add: stable_order_def)
  ultimately show ?thesis by (simp add: valid_order_def)
qed

text \<open>
  With \<open>stable_order\<close> the rows come as a stable sort by descending sum leaves them: rows with
  equal sums keep the order of the grouped frame.
\<close>

lemma insort_key_map_fun:
  "map g (insort_key (\<lambda>i. f (g i)) x xs) = insort_key f (g x) (map g xs)"
  by (induction xs) simp_all

lemma sort_key_map_fun: "map g (sort_key (\<lambda>i. f (g i)) xs) = sort_key f (map g xs)"
  by (induction xs) (simp_all add: insort_key_map_fun)

lemma insort_key_cong_set:
  "(\<And>i. i \<in> insert x (set xs) \<Longrightarrow> f i = h i) \<Longrightarrow> insort_key f x xs = insort_key h x xs"
  by (induction xs) auto

lemma sort_key_cong_set:
  "(\<And>i. i \<in> set xs \<Longrightarrow> f i = h i) \<Longrightarrow> sort_key f xs = sort_key h xs"
proof (induction xs)
  case Nil
  then show ?case by simp
next
  case (Cons x xs)
  then have "sort_key f xs = sort_key h xs" by simp
  moreover have "insort_key f x (sort_key h xs) = insort_key h x (sort_key h xs)"
    by (rule insort_key_cong_set) (use Cons.prems in auto)
  ultimately show ?case by simp
qed

lemma sort_values_stable: "sort_values stable_order gs = sort_key (\<lambda>g. - snd g) gs"
proof -
  have "sort_key (\<lambda>i. - map snd gs ! i) [0..<length gs] =
      sort_key (\<lambda>i. - snd (gs ! i)) [0..<length gs]"
    by (rule sort_key_cong_set) simp
  then have "sort_values stable_order gs =
      map (\<lambda>i. gs ! i) (sort_key (\<lambda>i. - snd (gs ! i)) [0..<length gs])"
    by (simp add: sort_values_def stable_order_def)
  also have "\<dots> = sort_key (\<lambda>g. - snd g) (map (\<lambda>i. gs ! i) [0..<length gs])"
    by (rule sort_key_map_fun)
  finally show ?thesis by (simp add: map_nth)
qed

lemma sort_values_set: "valid_order order \<Longrightarrow> set (sort_values order gs) = set gs"
proof -
  assume v: "valid_order order"
  have "set (sort_values order gs) = (\<lambda>i. gs ! i) ` {..<length gs}"
    by (simp add: sort_values_def valid_orderD(2) [OF v])
  also have "\<dots> = set gs" by (auto simp: set_conv_nth)
  finally show ?thesis .
qed

lemma sort_values_length: "valid_order order \<Longrightarrow> length (sort_values order gs) = length gs"
  by (simp add: sort_values_def valid_order_length)

lemma sort_values_desc:
  assumes "valid_order order"
  shows "sorted_wrt (\<lambda>g h. snd h \<le> snd g) (sort_values order gs)"
proof -
  let ?idx = "order (map snd gs)"
  have "sorted_wrt (\<lambda>i j. snd (gs ! j) \<le> snd (gs ! i)) ?idx"
  proof (rule sorted_wrt_mono_rel [OF _ valid_orderD(3) [OF assms, of "map snd gs"]])
    fix i j assume "i \<in> set ?idx" "j \<in> set ?idx" "map snd gs ! j \<le> map snd gs ! i"
    then show "snd (gs ! j) \<le> snd (gs ! i)"
      by (simp add: valid_orderD(2) [OF assms])
  qed
  then show ?thesis by (simp add: sort_values_def sorted_wrt_map)
qed


text \<open>On a grouped frame whose sums already decrease strictly the order is not in question.\<close>

lemma sort_values_sorted:
  assumes "valid_order order" and "sorted_wrt (\<lambda>g h. snd h < snd g) gs"
  shows "sort_values order gs = gs"
proof -
  let ?idx = "order (map snd gs)"
  note d = valid_orderD [OF assms(1), of "map snd gs"]
  have "sorted_wrt (<) ?idx"
    unfolding sorted_wrt_iff_nth_less
  proof (intro allI impI)
    fix a b assume ab: "a < b" "b < length ?idx"
    then have ne: "?idx ! a \<noteq> ?idx ! b"
      using d(1) by (simp add: nth_eq_iff_index_eq)
    from ab have "?idx ! a \<in> set ?idx" "?idx ! b \<in> set ?idx" by simp_all
    then have r: "?idx ! a < length gs" "?idx ! b < length gs" by (simp_all add: d(2))
    from d(3) ab have "map snd gs ! (?idx ! b) \<le> map snd gs ! (?idx ! a)"
      by (simp add: sorted_wrt_iff_nth_less)
    with r have le: "snd (gs ! (?idx ! b)) \<le> snd (gs ! (?idx ! a))" by simp
    show "?idx ! a < ?idx ! b"
    proof (rule ccontr)
      assume "\<not> ?idx ! a < ?idx ! b"
      with ne have "?idx ! b < ?idx ! a" by simp
      with assms(2) r have "snd (gs ! (?idx ! a)) < snd (gs ! (?idx ! b))"
        by (simp add: sorted_wrt_iff_nth_less)
      with le show False by simp
    qed
  qed
  then have "sorted ?idx" "distinct ?idx" by (simp_all add: strict_sorted_iff)
  moreover have "set ?idx = set [0..<length gs]" by (auto simp: d(2))
  ultimately have "?idx = [0..<length gs]"
    by (intro sorted_distinct_set_unique) simp_all
  then show ?thesis by (simp add: sort_values_def map_nth)
qed


lemma head_sorted_wrt: "sorted_wrt P xs \<Longrightarrow> sorted_wrt P (head n xs)"
  by (simp add: head_def)

lemma head_subset: "set (head n xs) \<subseteq> set xs"
  by (auto simp: head_def dest: in_set_takeD)



section \<open>The queries\<close>

lemma top_song_selected:
  assumes "valid_order order" and "top_song order df = Inr (Some r)"
  shows "\<exists>g\<in>set (groupby_sum song_key (rows df)). r = song_row g \<and>
           (\<forall>h\<in>set (groupby_sum song_key (rows df)). snd h \<le> snd g)"
proof -
  let ?G = "groupby_sum song_key (rows df)"
  from assms(2) obtain g gs where s: "sort_values order ?G = g # gs" and r: "r = song_row g"
    by (auto simp: top_song_def group_songs_def iloc0_def split: if_splits list.splits)
  have "sorted_wrt (\<lambda>g h. snd h \<le> snd g) (g # gs)"
    using sort_values_desc [OF assms(1), of ?G] s by simp
  then have "\<forall>h\<in>set (g # gs). snd h \<le> snd g" by auto
  moreover have "set (g # gs) = set ?G" using sort_values_set [OF assms(1), of ?G] s by simp
  ultimately have "g \<in> set ?G" and "\<forall>h\<in>set ?G. snd h \<le> snd g" by auto
  with r show ?thesis by blast
qed

lemma top_artist_selected:
  assumes "valid_order order" and "top_artist order df = Inr (Some r)"
  shows "\<exists>g\<in>set (groupby_sum artist_key (rows df)). r = artist_row g \<and>
           (\<forall>h\<in>set (groupby_sum artist_key (rows df)). snd h \<le> snd g)"
proof -
  let ?G = "groupby_sum artist_key (rows df)"
  from assms(2) obtain g gs where s: "sort_values order ?G = g # gs" and r: "r = artist_row g"
    by (auto simp: top_artist_def group_artists_def iloc0_def split: if_splits list.splits)
  have "sorted_wrt (\<lambda>g h. snd h \<le> snd g) (g # gs)"
    using sort_values_desc [OF assms(1), of ?G] s by simp
  then have "\<forall>h\<in>set (g # gs). snd h \<le> snd g" by auto
  moreover have "set (g # gs) = set ?G" using sort_values_set [OF assms(1), of ?G] s by simp
  ultimately have "g \<in> set ?G" and "\<forall>h\<in>set ?G. snd h \<le> snd g" by auto
  with r show ?thesis by blast
qed

lemma sort_values_Nil: "valid_order order \<Longrightarrow> sort_values order [] = []"
  using sort_values_length [of order "[]"] by simp



lemma top_song_returns:
  assumes "valid_order order" and "group_songs df = Inr G" and "G \<noteq> []"
  shows "\<exists>r. top_song order df = Inr (Some r)"
proof -
  from assms(2) have G: "G = groupby_sum song_key (rows df)"
    by (simp add: group_songs_def split: if_splits)
  with assms(3) have "\<not> empty df" by (auto simp: empty_def groupby_sum_Nil)
  moreover have "sort_values order G \<noteq> []"
    using assms(3) sort_values_length [OF assms(1), of G] by auto
  ultimately show ?thesis using assms(2)
    by (auto simp: top_song_def iloc0_def split: list.splits)
qed

lemma top_artist_returns:
  assumes "valid_order order" and "group_artists df = Inr H" and "H \<noteq> []"
  shows "\<exists>a. top_artist order df = Inr (Some a)"
proof -
  from assms(2) have H: "H = groupby_sum artist_key (rows df)"
    by (simp add: group_artists_def split: if_splits)
  with assms(3) have "\<not> empty df" by (auto simp: empty_def groupby_sum_Nil)
  moreover have "sort_values order H \<noteq> []"
    using assms(3) sort_values_length [OF assms(1), of H] by auto
  ultimately show ?thesis using assms(2)
    by (auto simp: top_artist_def iloc0_def split: list.splits)
qed

lemma top_3_songs_grouped:
  "valid_order order \<Longrightarrow> group_songs df = Inr G \<Longrightarrow>
   top_3_songs order df n = Inr (map song_row (head n (sort_values order G)))"
  by (auto simp: top_3_songs_def group_songs_def empty_def groupby_sum_Nil sort_values_Nil
      head_def split: if_splits)

text \<open>The queries on a frame whose grouped sums decrease strictly.\<close>

lemma top_song_sorted:
  assumes "valid_order order" and "\<not> empty df" and "group_songs df = Inr G"
    and "sorted_wrt (\<lambda>g h. snd h < snd g) G"
  shows "top_song order df =
    (case G of [] \<Rightarrow> Inl IndexError | g # _ \<Rightarrow> Inr (Some (song_row g)))"
  using assms(2,3)
  by (simp add: top_song_def iloc0_def sort_values_sorted [OF assms(1,4)] split: list.splits)

lemma top_artist_sorted:
  assumes "valid_order order" and "\<not> empty df" and "group_artists df = Inr H"
    and "sorted_wrt (\<lambda>g h. snd h < snd g) H"
  shows "top_artist order df =
    (case H of [] \<Rightarrow> Inl IndexError | g # _ \<Rightarrow> Inr (Some (artist_row g)))"
  using assms(2,3)
  by (simp add: top_artist_def iloc0_def sort_values_sorted [OF assms(1,4)] split: list.splits)

lemma top_3_songs_sorted:
  assumes "valid_order order" and "group_songs df = Inr G"
    and "sorted_wrt (\<lambda>g h. snd h < snd g) G"
  shows "top_3_songs order df n = Inr (map song_row (head n G))"
  using top_3_songs_grouped [OF assms(1,2)] by (simp add: sort_values_sorted [OF assms(1,3)])

lemma empty_input_queries:
  "init (array_buffer []) = Inr \<lparr>columns = [''minutes''], rows = []\<rparr> \<and>
   total_minutes \<lparr>columns = [''minutes''], rows = []\<rparr> = 0 \<and>
   top_song order \<lparr>columns = [''minutes''], rows = []\<rparr> = Inr None \<and>
   top_artist order \<lparr>columns = [''minutes''], rows = []\<rparr> = Inr None \<and>
   top_3_songs order \<lparr>columns = [''minutes''], rows = []\<rparr> n = Inr []"
  by (simp add: init_def array_buffer_def read_frame_def normalize_def kept_columns_def
      has_column_def total_minutes_def sum_minutes_def py_int_def top_song_def top_artist_def
      top_3_songs_def empty_def)

text \<open>
  The grouped frame is made from the rows of each key, in their order; how the rows of
  different keys lie between each other in the input does not enter.
\<close>

lemma filter_Nil_list_ex: "filter P xs = [] \<longleftrightarrow> \<not> list_ex P xs"
  by (simp add: filter_empty_conv list_ex_iff)

lemma groupby_sum_cong:
  assumes "\<forall>k. filter (\<lambda>r. key r = Some k) rs' = filter (\<lambda>r. key r = Some k) rs"
  shows "groupby_sum key rs' = groupby_sum key rs"
proof -
  have "list_ex (\<lambda>r. key r = Some k) rs' = list_ex (\<lambda>r. key r = Some k) rs" for k
    using assms filter_Nil_list_ex [of "\<lambda>r. key r = Some k"] by metis
  moreover have "filter (\<lambda>r. key r = Some k) rs' = filter (\<lambda>r. key r = Some k) rs" for k
    using assms by simp
  moreover have "map_of (groupby_sum key xs) =
      (\<lambda>k. if list_ex (\<lambda>r. key r = Some k) xs
           then Some (sum_minutes (filter (\<lambda>r. key r = Some k) xs)) else None)" for xs
    using groupby_sum_invariant [of key xs] by simp
  ultimately have "map_of (groupby_sum key rs') = map_of (groupby_sum key rs)"
    by (simp add: fun_eq_iff)
  then have "set (groupby_sum key rs') = set (groupby_sum key rs)"
    by (simp add: map_of_inject_set groupby_sum_distinct)
  moreover have "sorted_wrt (<) (groupby_sum key rs)" for rs
  proof (rule sorted_wrt_mono_rel)
    show "sorted_wrt (\<lambda>x y. fst x < fst y) (groupby_sum key rs)"
      using groupby_sum_sorted [of key rs] by (simp add: sorted_wrt_map)
  qed (simp add: less_prod_def)
  then have "sorted (groupby_sum key rs) \<and> distinct (groupby_sum key rs)" for rs
    by (simp add: strict_sorted_iff)
  ultimately show ?thesis by (intro sorted_distinct_set_unique) simp_all
qed

section \<open>The sample exports, evaluated\<close>

lemma scenario_normalize: "normalize scenario = Inr scenario_frame"
  by code_simp

lemma scenario_songs:
  "group_songs scenario_frame = Inr [((''A'', ''X''), 2), ((''B'', ''X''), 1 / 2)]"
  by code_simp

lemma scenario_artists: "group_artists scenario_frame = Inr [(''X'', 5 / 2)]"
  by code_simp




lemma flagged_init: "init (array_buffer flagged) = Inr flagged_frame"
  by code_simp

lemma flagged_read: "read_frame (array_buffer flagged) = Inr flagged"
  by (simp add: read_frame_def array_buffer_def)






lemma tied_init: "init (array_buffer tied) = Inr tied_frame"
  by code_simp

lemma swapped_init: "init (array_buffer swapped) = Inr swapped_frame"
  by code_simp

lemma tied_song_groups:
  "group_songs tied_frame = Inr [((''A'', ''X''), 1), ((''B'', ''Y''), 1)]"
  by code_simp

lemma swapped_song_groups:
  "group_songs swapped_frame = Inr [((''A'', ''X''), 1), ((''B'', ''Y''), 1)]"
  by code_simp

lemma tied_artist_groups: "group_artists tied_frame = Inr [(''X'', 1), (''Y'', 1)]"
  by code_simp

lemma swapped_artist_groups: "group_artists swapped_frame = Inr [(''X'', 1), (''Y'', 1)]"
  by code_simp

lemma tied_not_empty: "\<not> empty tied_frame" "\<not> empty swapped_frame"
  by (simp_all add: empty_def tied_frame_def swapped_frame_def)

lemma ranked_init: "init (array_buffer ranked) = Inr ranked_frame"
  by code_simp

lemma ranked_songs:
  "group_songs ranked_frame = Inr [((''A'', ''X''), 2), ((''B'', ''X''), 1)]"
  by code_simp

lemma ranked_not_empty: "\<not> empty ranked_frame"
  by (simp add: empty_def ranked_frame_def)

lemma ranked_top_song:
  assumes "valid_order order"
  shows "top_song order ranked_frame = Inr (Some \<lparr>song = ''A'', artist = ''X'', mins = 2\<rparr>)"
  using top_song_sorted [OF assms ranked_not_empty ranked_songs]
  by (simp add: song_row_def py_int_def)


lemma ranked_top_3:
  assumes "valid_order order"
  shows "top_3_songs order ranked_frame 3 =
     Inr [\<lparr>song = ''A'', artist = ''X'', mins = 2\<rparr>, \<lparr>song = ''B'', artist = ''X'', mins = 1\<rparr>]"
  using top_3_songs_sorted [OF assms ranked_songs]
  by (simp add: head_def song_row_def py_int_def)

lemma null_named_init: "init (array_buffer null_named) = Inr null_named_frame"
  by code_simp

lemma null_named_groups:
  "group_songs null_named_frame = Inr []" "group_artists null_named_frame = Inr []"
  by code_simp+

lemma nameless_init: "init (array_buffer nameless) = Inr nameless_frame"
  by code_simp

lemma nameless_groups:
  "group_songs nameless_frame = Inl KeyError" "group_artists nameless_frame = Inl KeyError"
  by code_simp+

lemma null_titled_init: "init (array_buffer null_titled) = Inr null_titled_frame"
  by code_simp

lemma null_titled_songs: "group_songs null_titled_frame = Inr []"
  by code_simp



section \<open>Total minutes (C1)\<close>




section \<open>Grouped results (C2)\<close>




section \<open>The worked example (C3)\<close>

text \<open>
  C3. The three events \<open>A/X 90000 ms\<close>, \<open>B/X 30000 ms\<close>, \<open>A/X 30000 ms\<close>, read from a JSON
  array, give \<open>total_minutes = 2\<close>, \<open>top_song = {A, X, 2}\<close>, \<open>top_artist = {X, 2}\<close> and
  \<open>top_3_songs(3) = [{A, X, 2}, {B, X, 0}]\<close>, whatever order the sort gives to equal sums
  (there are none). The minutes \<open>1.5\<close>, \<open>0.5\<close>, \<open>0.5\<close> and their sums are binary fractions, so
  no rounding occurs.
\<close>

theorem scenario_results:
  assumes "valid_order order"
  shows "init \<lparr>as_array = Some scenario, as_lines = l\<rparr> = Inr scenario_frame \<and>
   total_minutes scenario_frame = 2 \<and>
   top_song order scenario_frame = Inr (Some \<lparr>song = ''A'', artist = ''X'', mins = 2\<rparr>) \<and>
   top_artist order scenario_frame = Inr (Some \<lparr>a_artist = ''X'', a_mins = 2\<rparr>) \<and>
   top_3_songs order scenario_frame 3 =
     Inr [\<lparr>song = ''A'', artist = ''X'', mins = 2\<rparr>, \<lparr>song = ''B'', artist = ''X'', mins = 0\<rparr>]"
proof -
  have e: "\<not> empty scenario_frame" by (simp add: empty_def scenario_frame_def)
  have a: "song_row ((''A'', ''X''), 2) = \<lparr>song = ''A'', artist = ''X'', mins = 2\<rparr>" by code_simp
  have b: "song_row ((''B'', ''X''), 1 / 2) = \<lparr>song = ''B'', artist = ''X'', mins = 0\<rparr>"
    by code_simp
  have x: "artist_row (''X'', 5 / 2) = \<lparr>a_artist = ''X'', a_mins = 2\<rparr>" by code_simp
  have "total_minutes scenario_frame = 2" by code_simp
  moreover have "top_song order scenario_frame =
      Inr (Some \<lparr>song = ''A'', artist = ''X'', mins = 2\<rparr>)"
    using top_song_sorted [OF assms e scenario_songs] by (simp add: a)
  moreover have "top_artist order scenario_frame = Inr (Some \<lparr>a_artist = ''X'', a_mins = 2\<rparr>)"
    using top_artist_sorted [OF assms e scenario_artists] by (simp add: x)
  moreover have "top_3_songs order scenario_frame 3 =
     Inr [\<lparr>song = ''A'', artist = ''X'', mins = 2\<rparr>, \<lparr>song = ''B'', artist = ''X'', mins = 0\<rparr>]"
    using top_3_songs_sorted [OF assms scenario_songs] by (simp add: head_def a b)
  ultimately show ?thesis by (simp add: init_array scenario_normalize)
qed

theorem scenario_results_witness:
  "valid_order stable_order \<and>
   init \<lparr>as_array = Some scenario, as_lines = None\<rparr> = Inr scenario_frame \<and>
   total_minutes scenario_frame = 2 \<and>
   top_song stable_order scenario_frame =
     Inr (Some \<lparr>song = ''A'', artist = ''X'', mins = 2\<rparr>) \<and>
   top_artist stable_order scenario_frame = Inr (Some \<lparr>a_artist = ''X'', a_mins = 2\<rparr>) \<and>
   top_3_songs stable_order scenario_frame 3 =
     Inr [\<lparr>song = ''A'', artist = ''X'', mins = 2\<rparr>, \<lparr>song = ''B'', artist = ''X'', mins = 0\<rparr>]"
  using scenario_results [OF valid_stable_order, of None] valid_stable_order by simp

section \<open>Reading the buffer (C4)\<close>




section \<open>The \<open>msPlayed\<close> column (C5)\<close>

text \<open>
  C5, as the code has it. When some \<open>msPlayed\<close> is text that spells no number, the
  constructor fails with \<open>ValueError\<close>. Otherwise it succeeds with one row per record: a
  missing or null \<open>msPlayed\<close> gives a \<open>NaN\<close> cell (the cell \<open>0.0\<close> when no record of the
  export has the key), which counts as \<open>0\<close> in every sum; a number \<open>x\<close> gives \<open>x / 60000\<close>, rounded;
  \<open>true\<close> and \<open>false\<close> are converted to \<open>1\<close> and \<open>0\<close> milliseconds.
\<close>

theorem msPlayed_conversion:
  assumes "read_frame b = Inr objs"
  shows "(list_ex (\<lambda>ob. is_text (msPlayed ob)) objs \<longrightarrow> init b = Inl ValueError) \<and>
    (\<not> list_ex (\<lambda>ob. is_text (msPlayed ob)) objs \<longrightarrow>
       (\<exists>df. init b = Inr df \<and> length (rows df) = length objs \<and>
          (\<forall>i<length objs.
             (msPlayed (objs ! i) = Absent \<or> msPlayed (objs ! i) = Null \<longrightarrow>
                r_minutes (rows df ! i) = (if has_column msPlayed objs then None else Some 0) \<and>
                nan_to_zero (r_minutes (rows df ! i)) = 0) \<and>
             (\<forall>x. msPlayed (objs ! i) = Val (MsNum x) \<longrightarrow>
                r_minutes (rows df ! i) = Some (fl (fl x / 60000))) \<and>
             (\<forall>v. msPlayed (objs ! i) = Val (MsBool v) \<longrightarrow>
                r_minutes (rows df ! i) = Some (fl ((if v then 1 else 0) / 60000))))))"
proof (cases "list_ex (\<lambda>ob. is_text (msPlayed ob)) objs")
  case True
  then show ?thesis
    using normalize_Inl [of objs ValueError] by (simp add: init_read [OF assms])
next
  case False
  then obtain df where df: "normalize objs = Inr df"
    using normalize_Inl [of objs] by (cases "normalize objs") auto
  have "has_column msPlayed objs" if "i < length objs" "msPlayed (objs ! i) \<noteq> Absent" for i
    using that by (auto simp: has_column_def list_ex_iff)
  then show ?thesis
    using False df normalize_Inr(2) [OF df] normalize_Inr(5) [OF df]
    by (auto simp: init_read [OF assms] to_minutes_def nan_to_zero_def)
qed

text \<open>
  The claim has every \<open>msPlayed\<close> that is not a number fail the parse, and a missing one
  become \<open>0.0\<close>. With \<open>msPlayed: true\<close> in the first record and no \<open>msPlayed\<close> in the second,
  the constructor succeeds; the first minutes cell is \<open>1 / 60000\<close> and the second is \<open>NaN\<close>.
\<close>

theorem msPlayed_conversion_counterexample:
  "msPlayed (flagged ! 0) = Val (MsBool True) \<and> msPlayed (flagged ! 1) = Absent \<and>
   init (array_buffer flagged) = Inr flagged_frame \<and>
   r_minutes (rows flagged_frame ! 0) = Some (fl (1 / 60000)) \<and>
   r_minutes (rows flagged_frame ! 1) \<noteq> Some 0"
  by (simp add: flagged_init) (simp add: flagged_def flagged_frame_def)

theorem msPlayed_conversion_witness:
  "init (array_buffer garbled) = Inl ValueError \<and>
   init (array_buffer flagged) = Inr flagged_frame \<and>
   nan_to_zero (r_minutes (rows flagged_frame ! 1)) = 0"
proof -
  have g: "read_frame (array_buffer garbled) = Inr garbled"
    by (simp add: read_frame_def array_buffer_def)
  have "list_ex (\<lambda>ob. is_text (msPlayed ob)) garbled"
    by (simp add: garbled_def play_def)
  with msPlayed_conversion [OF g] have 1: "init (array_buffer garbled) = Inl ValueError"
    by blast
  have nt: "\<not> list_ex (\<lambda>ob. is_text (msPlayed ob)) flagged"
    by (simp add: flagged_def)
  have m: "msPlayed (flagged ! 1) = Absent" "(1::nat) < length flagged"
    by (simp_all add: flagged_def)
  from msPlayed_conversion [OF flagged_read] nt m
  have "nan_to_zero (r_minutes (rows flagged_frame ! 1)) = 0"
    by (auto simp: flagged_init)
  with 1 show ?thesis by (simp add: flagged_init)
qed

section \<open>The name columns (C6)\<close>




section \<open>Queries that raise (C7)\<close>

text \<open>
  C7. The queries are claimed never to raise. The export
  \<open>[{"trackName": null, "artistName": null, "msPlayed": 60000}]\<close> gives a frame with one row,
  so the guard \<open>df.empty\<close> does not return; the grouped frame has no row, \<open>top_3_songs\<close>
  returns \<open>[]\<close>, and \<open>top_song\<close> and \<open>top_artist\<close> raise \<open>IndexError\<close> at \<open>iloc[0]\<close>. The export
  \<open>[{"msPlayed": 60000}]\<close> gives a frame without name columns, on which the three queries
  raise \<open>KeyError\<close> in \<open>groupby\<close>. \<open>total_minutes\<close> is \<open>1\<close> on both. The sort has nothing to
  order on either.
\<close>

theorem queries_raise_without_names:
  assumes "valid_order order"
  shows "init (array_buffer null_named) = Inr null_named_frame \<and>
   total_minutes null_named_frame = 1 \<and>
   top_song order null_named_frame = Inl IndexError \<and>
   top_artist order null_named_frame = Inl IndexError \<and>
   top_3_songs order null_named_frame 3 = Inr [] \<and>
   init (array_buffer nameless) = Inr nameless_frame \<and>
   total_minutes nameless_frame = 1 \<and>
   top_song order nameless_frame = Inl KeyError \<and>
   top_artist order nameless_frame = Inl KeyError \<and>
   top_3_songs order nameless_frame 3 = Inl KeyError"
proof -
  have e: "\<not> empty null_named_frame" "\<not> empty nameless_frame"
    by (simp_all add: empty_def null_named_frame_def nameless_frame_def)
  have t: "total_minutes null_named_frame = 1" "total_minutes nameless_frame = 1"
    by code_simp+
  have "top_song order null_named_frame = Inl IndexError"
    using top_song_sorted [OF assms e(1) null_named_groups(1)] by simp
  moreover have "top_artist order null_named_frame = Inl IndexError"
    using top_artist_sorted [OF assms e(1) null_named_groups(2)] by simp
  moreover have "top_3_songs order null_named_frame 3 = Inr []"
    using top_3_songs_sorted [OF assms null_named_groups(1)] by (simp add: head_def)
  moreover have "top_song order nameless_frame = Inl KeyError"
    "top_artist order nameless_frame = Inl KeyError"
    "top_3_songs order nameless_frame 3 = Inl KeyError"
    using e(2) by (simp_all add: top_song_def top_artist_def top_3_songs_def nameless_groups)
  ultimately show ?thesis by (simp add: null_named_init nameless_init t)
qed

theorem queries_raise_without_names_witness:
  "valid_order stable_order \<and>
   init (array_buffer null_named) = Inr null_named_frame \<and>
   total_minutes null_named_frame = 1 \<and>
   top_song stable_order null_named_frame = Inl IndexError \<and>
   top_artist stable_order null_named_frame = Inl IndexError \<and>
   top_3_songs stable_order null_named_frame 3 = Inr [] \<and>
   init (array_buffer nameless) = Inr nameless_frame \<and>
   total_minutes nameless_frame = 1 \<and>
   top_song stable_order nameless_frame = Inl KeyError \<and>
   top_artist stable_order nameless_frame = Inl KeyError \<and>
   top_3_songs stable_order nameless_frame 3 = Inl KeyError"
  using queries_raise_without_names [OF valid_stable_order] valid_stable_order by simp

section \<open>Ties (C8)\<close>

text \<open>
  C8, as the code has it. When the grouping has a group, \<open>top_song\<close> (and likewise
  \<open>top_artist\<close>) returns a group with the largest sum, and the rows of \<open>top_3_songs\<close> come by
  descending sum. Which of several groups with the largest sum comes first is left to the
  sort, which is not stable and sees the grouped frame only: the keys in ascending order
  with their sums. The order in which the groups first occur in the input plays no part:
  two frames with the same columns whose rows agree key by key, however the rows of
  different keys lie between each other, get the same answers.
\<close>

theorem ties_left_to_the_sort:
  assumes "valid_order order"
  shows "(group_songs df = Inr G \<and> G \<noteq> [] \<longrightarrow>
      (\<exists>g\<in>set G. top_song order df = Inr (Some (song_row g)) \<and>
         (\<forall>h\<in>set G. snd h \<le> snd g))) \<and>
   (group_artists df = Inr H \<and> H \<noteq> [] \<longrightarrow>
      (\<exists>g\<in>set H. top_artist order df = Inr (Some (artist_row g)) \<and>
         (\<forall>h\<in>set H. snd h \<le> snd g))) \<and>
   (group_songs df = Inr G \<longrightarrow>
      (\<exists>gs. top_3_songs order df n = Inr (map song_row gs) \<and>
         sorted_wrt (\<lambda>g h. snd h \<le> snd g) gs \<and> set gs \<subseteq> set G)) \<and>
   (columns df' = columns df \<and> (rows df' = [] \<longleftrightarrow> rows df = []) \<and>
    (\<forall>k. filter (\<lambda>r. song_key r = Some k) (rows df') =
         filter (\<lambda>r. song_key r = Some k) (rows df)) \<longrightarrow>
      top_song order df' = top_song order df \<and>
      top_3_songs order df' n = top_3_songs order df n) \<and>
   (columns df' = columns df \<and> (rows df' = [] \<longleftrightarrow> rows df = []) \<and>
    (\<forall>k. filter (\<lambda>r. artist_key r = Some k) (rows df') =
         filter (\<lambda>r. artist_key r = Some k) (rows df)) \<longrightarrow>
      top_artist order df' = top_artist order df)"
proof -
  have songs: "\<exists>g\<in>set G. top_song order df = Inr (Some (song_row g)) \<and>
         (\<forall>h\<in>set G. snd h \<le> snd g)"
    if "group_songs df = Inr G" "G \<noteq> []"
  proof -
    from that(1) have G: "G = groupby_sum song_key (rows df)"
      by (simp add: group_songs_def split: if_splits)
    from top_song_returns [OF assms that] obtain r where r: "top_song order df = Inr (Some r)" ..
    from top_song_selected [OF assms r] r show ?thesis unfolding G by blast
  qed
  have artists: "\<exists>g\<in>set H. top_artist order df = Inr (Some (artist_row g)) \<and>
         (\<forall>h\<in>set H. snd h \<le> snd g)"
    if "group_artists df = Inr H" "H \<noteq> []"
  proof -
    from that(1) have H: "H = groupby_sum artist_key (rows df)"
      by (simp add: group_artists_def split: if_splits)
    from top_artist_returns [OF assms that] obtain a where a: "top_artist order df = Inr (Some a)" ..
    from top_artist_selected [OF assms a] a show ?thesis unfolding H by blast
  qed
  have topn: "\<exists>gs. top_3_songs order df n = Inr (map song_row gs) \<and>
         sorted_wrt (\<lambda>g h. snd h \<le> snd g) gs \<and> set gs \<subseteq> set G"
    if "group_songs df = Inr G"
  proof -
    have "sorted_wrt (\<lambda>g h. snd h \<le> snd g) (head n (sort_values order G))"
      by (rule head_sorted_wrt) (rule sort_values_desc [OF assms])
    moreover have "set (head n (sort_values order G)) \<subseteq> set G"
      using head_subset [of n "sort_values order G"] by (simp add: sort_values_set [OF assms])
    ultimately show ?thesis using top_3_songs_grouped [OF assms that] by blast
  qed
  have same_songs: "top_song order df' = top_song order df \<and>
      top_3_songs order df' n = top_3_songs order df n"
    if "columns df' = columns df" "rows df' = [] \<longleftrightarrow> rows df = []"
      "\<forall>k. filter (\<lambda>r. song_key r = Some k) (rows df') =
         filter (\<lambda>r. song_key r = Some k) (rows df)"
  proof -
    have "group_songs df' = group_songs df"
      using that(1) groupby_sum_cong [OF that(3)] by (simp add: group_songs_def)
    with that(2) show ?thesis by (simp add: top_song_def top_3_songs_def empty_def)
  qed
  have same_artists: "top_artist order df' = top_artist order df"
    if "columns df' = columns df" "rows df' = [] \<longleftrightarrow> rows df = []"
      "\<forall>k. filter (\<lambda>r. artist_key r = Some k) (rows df') =
         filter (\<lambda>r. artist_key r = Some k) (rows df)"
  proof -
    have "group_artists df' = group_artists df"
      using that(1) groupby_sum_cong [OF that(3)] by (simp add: group_artists_def)
    with that(2) show ?thesis by (simp add: top_artist_def empty_def)
  qed
  from songs artists topn same_songs same_artists show ?thesis by blast
qed

text \<open>
  The claim has the group win whose first record comes first in the input. The exports
  \<open>[{B, Y, 60000}, {A, X, 60000}]\<close> and \<open>[{A, X, 60000}, {B, Y, 60000}]\<close> hold the same two
  plays, one minute each, in the two orders. Both have the grouped frames \<open>(A, X): 1, (B, Y): 1\<close>
  by song and \<open>X: 1, Y: 1\<close> by artist. The claim wants \<open>B\<close> and \<open>Y\<close> from the first export and
  \<open>A\<close> and \<open>X\<close> from the second. No sort gives that: what it answers is a function of the
  column of sums it is handed, and that column is the same both times.
\<close>

theorem input_order_tie_break_counterexample:
  "init (array_buffer tied) = Inr tied_frame \<and>
   init (array_buffer swapped) = Inr swapped_frame \<and>
   map r_track (rows tied_frame) = [Some ''B'', Some ''A''] \<and>
   map r_track (rows swapped_frame) = [Some ''A'', Some ''B''] \<and>
   group_songs tied_frame = Inr [((''A'', ''X''), 1), ((''B'', ''Y''), 1)] \<and>
   group_songs swapped_frame = Inr [((''A'', ''X''), 1), ((''B'', ''Y''), 1)] \<and>
   group_artists tied_frame = Inr [(''X'', 1), (''Y'', 1)] \<and>
   group_artists swapped_frame = Inr [(''X'', 1), (''Y'', 1)] \<and>
   \<not> (\<exists>order.
        top_song order tied_frame = Inr (Some \<lparr>song = ''B'', artist = ''Y'', mins = 1\<rparr>) \<and>
        top_song order swapped_frame = Inr (Some \<lparr>song = ''A'', artist = ''X'', mins = 1\<rparr>)) \<and>
   \<not> (\<exists>order.
        top_artist order tied_frame = Inr (Some \<lparr>a_artist = ''Y'', a_mins = 1\<rparr>) \<and>
        top_artist order swapped_frame = Inr (Some \<lparr>a_artist = ''X'', a_mins = 1\<rparr>)) \<and>
   \<not> (\<exists>order.
        top_3_songs order tied_frame 3 =
          Inr [\<lparr>song = ''B'', artist = ''Y'', mins = 1\<rparr>, \<lparr>song = ''A'', artist = ''X'', mins = 1\<rparr>] \<and>
        top_3_songs order swapped_frame 3 =
          Inr [\<lparr>song = ''A'', artist = ''X'', mins = 1\<rparr>, \<lparr>song = ''B'', artist = ''Y'', mins = 1\<rparr>])"
proof -
  have "top_song order tied_frame = top_song order swapped_frame" for order
    using tied_not_empty by (simp add: top_song_def tied_song_groups swapped_song_groups)
  then have "\<not> (\<exists>order.
        top_song order tied_frame = Inr (Some \<lparr>song = ''B'', artist = ''Y'', mins = 1\<rparr>) \<and>
        top_song order swapped_frame = Inr (Some \<lparr>song = ''A'', artist = ''X'', mins = 1\<rparr>))"
    by auto
  moreover have "top_artist order tied_frame = top_artist order swapped_frame" for order
    using tied_not_empty by (simp add: top_artist_def tied_artist_groups swapped_artist_groups)
  then have "\<not> (\<exists>order.
        top_artist order tied_frame = Inr (Some \<lparr>a_artist = ''Y'', a_mins = 1\<rparr>) \<and>
        top_artist order swapped_frame = Inr (Some \<lparr>a_artist = ''X'', a_mins = 1\<rparr>))"
    by auto
  moreover have "top_3_songs order tied_frame 3 = top_3_songs order swapped_frame 3" for order
    using tied_not_empty by (simp add: top_3_songs_def tied_song_groups swapped_song_groups)
  then have "\<not> (\<exists>order.
        top_3_songs order tied_frame 3 =
          Inr [\<lparr>song = ''B'', artist = ''Y'', mins = 1\<rparr>, \<lparr>song = ''A'', artist = ''X'', mins = 1\<rparr>] \<and>
        top_3_songs order swapped_frame 3 =
          Inr [\<lparr>song = ''A'', artist = ''X'', mins = 1\<rparr>, \<lparr>song = ''B'', artist = ''Y'', mins = 1\<rparr>])"
    by auto
  moreover have "map r_track (rows tied_frame) = [Some ''B'', Some ''A'']"
    "map r_track (rows swapped_frame) = [Some ''A'', Some ''B'']"
    by (simp_all add: tied_frame_def swapped_frame_def)
  ultimately show ?thesis
    by (simp only: tied_init swapped_init tied_song_groups swapped_song_groups
        tied_artist_groups swapped_artist_groups simp_thms)
qed

theorem ties_left_to_the_sort_witness:
  "valid_order stable_order \<and>
   group_songs tied_frame = Inr [((''A'', ''X''), 1), ((''B'', ''Y''), 1)] \<and>
   group_artists tied_frame = Inr [(''X'', 1), (''Y'', 1)] \<and>
   (\<exists>g\<in>set [((''A'', ''X''), 1), ((''B'', ''Y''), 1)].
      top_song stable_order tied_frame = Inr (Some (song_row g))) \<and>
   (\<exists>g\<in>set [(''X'', 1), (''Y'', 1)].
      top_artist stable_order tied_frame = Inr (Some (artist_row g))) \<and>
   (\<exists>gs. top_3_songs stable_order tied_frame 3 = Inr (map song_row gs) \<and>
      sorted_wrt (\<lambda>g h. snd h \<le> snd g) gs) \<and>
   columns swapped_frame = columns tied_frame \<and>
   top_song stable_order swapped_frame = top_song stable_order tied_frame \<and>
   top_3_songs stable_order swapped_frame 3 = top_3_songs stable_order tied_frame 3 \<and>
   top_artist stable_order swapped_frame = top_artist stable_order tied_frame"
proof -
  have c: "columns swapped_frame = columns tied_frame"
    "rows swapped_frame = [] \<longleftrightarrow> rows tied_frame = []"
    by (simp_all add: swapped_frame_def tied_frame_def)
  have s: "\<forall>k. filter (\<lambda>r. song_key r = Some k) (rows swapped_frame) =
      filter (\<lambda>r. song_key r = Some k) (rows tied_frame)"
    by (auto simp: swapped_frame_def tied_frame_def song_key_def)
  have a: "\<forall>k. filter (\<lambda>r. artist_key r = Some k) (rows swapped_frame) =
      filter (\<lambda>r. artist_key r = Some k) (rows tied_frame)"
    by (auto simp: swapped_frame_def tied_frame_def artist_key_def)
  have g: "[((''A'', ''X''), 1::rat), ((''B'', ''Y''), 1)] \<noteq> []"
    "[(''X'', 1::rat), (''Y'', 1)] \<noteq> []"
    by simp_all
  from ties_left_to_the_sort [OF valid_stable_order, of tied_frame
      "[((''A'', ''X''), 1), ((''B'', ''Y''), 1)]" "[(''X'', 1), (''Y'', 1)]" 3 swapped_frame]
    tied_song_groups tied_artist_groups c s a g valid_stable_order
  show ?thesis by blast
qed

section \<open>The first \<open>n\<close> songs (C9)\<close>




section \<open>\<open>top_song\<close> and the first of \<open>top_3_songs\<close> (C10)\<close>

text \<open>
  C10, as the code has it. For the frame of a parsed export in which some record has both
  names, and for \<open>n \<ge> 1\<close>, \<open>top_song\<close> returns a row and \<open>top_3_songs\<close> returns a list that
  starts with the same row, whatever order the sort gives to groups with equal sums: both
  queries sort the same grouped frame.
\<close>

theorem top_song_heads_top_n:
  assumes "valid_order order"
    and "init b = Inr df" and "list_ex (\<lambda>r. song_key r \<noteq> None) (rows df)" and "1 \<le> n"
  shows "\<exists>r rs. top_song order df = Inr (Some r) \<and> top_3_songs order df n = Inr (r # rs)"
proof -
  let ?G = "groupby_sum song_key (rows df)"
  from assms(3) obtain rw where rw: "rw \<in> set (rows df)" "song_key rw \<noteq> None"
    by (auto simp: list_ex_iff)
  from init_name_columns [OF assms(2) rw]
  have grp: "group_songs df = Inr ?G" by (simp add: group_songs_def)
  from rw have ne: "\<not> empty df" by (auto simp: empty_def)
  from rw have "set (map fst ?G) \<noteq> {}" unfolding groupby_sum_keys by auto
  then have "sort_values order ?G \<noteq> []"
    using sort_values_length [OF assms(1), of ?G] by auto
  then obtain g gs where s: "sort_values order ?G = g # gs"
    by (cases "sort_values order ?G") auto
  have "top_song order df = Inr (Some (song_row g))"
    using ne grp s by (simp add: top_song_def iloc0_def)
  moreover have "head n (g # gs) = g # take (nat n - 1) gs"
    using assms(4) by (simp add: head_def take_Cons' )
  then have "top_3_songs order df n = Inr (song_row g # map song_row (take (nat n - 1) gs))"
    using ne grp s by (simp add: top_3_songs_def)
  ultimately show ?thesis by blast
qed

text \<open>
  The claim is for every export that is not empty. The export
  \<open>[{"trackName": null, "artistName": "X", "msPlayed": 60000}]\<close> has one record and no
  group; \<open>top_song\<close> raises \<open>IndexError\<close> and \<open>top_3_songs(1)\<close> returns \<open>[]\<close>, which has no
  first row, under every order the sort may give.
\<close>

theorem top_song_heads_top_n_counterexample:
  "init (array_buffer null_titled) = Inr null_titled_frame \<and>
   rows null_titled_frame \<noteq> [] \<and>
   top_song stable_order null_titled_frame = Inl IndexError \<and>
   top_3_songs stable_order null_titled_frame 1 = Inr [] \<and>
   \<not> (\<exists>order. valid_order order \<and>
        (top_song order null_titled_frame \<noteq> Inl IndexError \<or>
         top_3_songs order null_titled_frame 1 \<noteq> Inr []))"
proof -
  have ne: "\<not> empty null_titled_frame" by (simp add: empty_def null_titled_frame_def)
  have "top_song order null_titled_frame = Inl IndexError \<and>
      top_3_songs order null_titled_frame 1 = Inr []" if "valid_order order" for order
    using ne by (simp add: top_song_def top_3_songs_def null_titled_songs
        sort_values_Nil [OF that] iloc0_def head_def)
  from this this [OF valid_stable_order] ne show ?thesis
    by (simp add: null_titled_init empty_def)
qed

theorem top_song_heads_top_n_witness:
  "valid_order stable_order \<and>
   init (array_buffer ranked) = Inr ranked_frame \<and>
   list_ex (\<lambda>r. song_key r \<noteq> None) (rows ranked_frame) \<and> (1::int) \<le> 3 \<and>
   top_song stable_order ranked_frame = Inr (Some \<lparr>song = ''A'', artist = ''X'', mins = 2\<rparr>) \<and>
   top_3_songs stable_order ranked_frame 3 =
     Inr [\<lparr>song = ''A'', artist = ''X'', mins = 2\<rparr>, \<lparr>song = ''B'', artist = ''X'', mins = 1\<rparr>]"
proof -
  have k: "list_ex (\<lambda>r. song_key r \<noteq> None) (rows ranked_frame)"
    by (simp add: ranked_frame_def song_key_def)
  have n: "(1::int) \<le> 3" by simp
  from top_song_heads_top_n [OF valid_stable_order ranked_init k n] k valid_stable_order
    ranked_top_song [OF valid_stable_order] ranked_top_3 [OF valid_stable_order]
  show ?thesis by (simp add: ranked_init)
qed

end
